theory Spec2Isabelle
  imports Complex_Main "HOL-Library.Stream"
begin

section \<open>Data model\<close>

text \<open>
  The three module-level globals of \<^verbatim>\<open>backend/app.py\<close>: the mode is the Python string
  itself, the simulated clock is an unbounded integer (milliseconds since the epoch) and
  the phase is a float. Floats are modelled as reals: \<^verbatim>\<open>+\<close>, \<^verbatim>\<open>*\<close>, \<^verbatim>\<open>/\<close> and
  \<^verbatim>\<open>math.sin\<close> are exact, and only \<^verbatim>\<open>round\<close> rounds.
\<close>

record state =
  generation_mode :: string
  current_time_ms :: int
  phase :: real

text \<open>What \<^verbatim>\<open>jsonify\<close> is given: dictionaries keep their items in source order.\<close>

datatype json =
  JStr string
| JNum real
| JArr "json list"
| JObj "(string \<times> json) list"

text \<open>A response is the JSON body with the HTTP status code.\<close>

type_synonym response = "json \<times> nat"

text \<open>The exception of a timestamp outside the range of \<^verbatim>\<open>datetime\<close>.\<close>

datatype py_error = ValueError

section \<open>Library functions used by the program\<close>

text \<open>\<^verbatim>\<open>int(x)\<close> on a float truncates towards zero.\<close>

definition py_int :: "real \<Rightarrow> int" where
  "py_int x = (if 0 \<le> x then \<lfloor>x\<rfloor> else \<lceil>x\<rceil>)"

text \<open>
  Rounding to the nearest integer, ties to the even neighbour, as \<^verbatim>\<open>round\<close> and the
  timestamp conversion of \<^verbatim>\<open>datetime\<close> do.
\<close>

definition round_half_even :: "real \<Rightarrow> int" where
  "round_half_even x =
     (let f = \<lfloor>x\<rfloor>; d = x - of_int f
      in if d < 1 / 2 then f
         else if 1 / 2 < d then f + 1
         else if even f then f else f + 1)"

text \<open>\<^verbatim>\<open>round(x, ndigits)\<close> for a float and a non-negative number of digits.\<close>

definition py_round :: "real \<Rightarrow> nat \<Rightarrow> real" where
  "py_round x ndigits = of_int (round_half_even (x * 10 ^ ndigits)) / 10 ^ ndigits"

text \<open>\<^verbatim>\<open>sep.join(xs)\<close>\<close>

fun str_join :: "string \<Rightarrow> string list \<Rightarrow> string" where
  "str_join sep [] = []"
| "str_join sep [x] = x"
| "str_join sep (x # y # ys) = x @ sep @ str_join sep (y # ys)"

text \<open>
  The random number generator is the stream of the values that successive calls of
  \<^verbatim>\<open>random.random()\<close> return, each in \<open>[0, 1)\<close>. \<^verbatim>\<open>random.uniform(a, b)\<close> is
  \<^verbatim>\<open>a + (b - a) * random()\<close>.
\<close>

type_synonym rng = "real stream"

definition random_random :: "rng \<Rightarrow> real \<times> rng" where
  "random_random g = (shd g, stl g)"

definition random_uniform :: "real \<Rightarrow> real \<Rightarrow> rng \<Rightarrow> real \<times> rng" where
  "random_uniform a b g = (case random_random g of (r, g') \<Rightarrow> (a + (b - a) * r, g'))"

definition rng_ok :: "rng \<Rightarrow> bool" where
  "rng_ok g = (0 \<le> shd g \<and> shd g < 1 \<and> 0 \<le> shd (stl g) \<and> shd (stl g) < 1)"

subsection \<open>The \<^verbatim>\<open>datetime\<close> module\<close>

record datetime =
  year :: int
  month :: int
  day :: int
  hour :: int
  minute :: int
  second :: int
  microsecond :: int

definition is_leap :: "int \<Rightarrow> bool" where
  "is_leap y = (y mod 4 = 0 \<and> (y mod 100 \<noteq> 0 \<or> y mod 400 = 0))"

text \<open>The table \<^verbatim>\<open>_DAYS_IN_MONTH\<close>, indexed by the month number (index 0 is unused).\<close>

definition DAYS_IN_MONTH :: "int list" where
  "DAYS_IN_MONTH = [-1, 31, 28, 31, 30, 31, 30, 31, 31, 30, 31, 30, 31]"

text \<open>The table \<^verbatim>\<open>_DAYS_BEFORE_MONTH\<close>: the days of a common year before each month.\<close>

definition DAYS_BEFORE_MONTH :: "int list" where
  "DAYS_BEFORE_MONTH = [-1, 0, 31, 59, 90, 120, 151, 181, 212, 243, 273, 304, 334]"

definition days_before_year :: "int \<Rightarrow> int" where
  "days_before_year y = (y - 1) * 365 + (y - 1) div 4 - (y - 1) div 100 + (y - 1) div 400"

definition days_before_month :: "int \<Rightarrow> int \<Rightarrow> int" where
  "days_before_month y m =
     DAYS_BEFORE_MONTH ! nat m + (if 2 < m \<and> is_leap y then 1 else 0)"

text \<open>\<^verbatim>\<open>_ymd2ord\<close>: the proleptic Gregorian ordinal, 1 for 0001-01-01.\<close>

definition ymd2ord :: "int \<Rightarrow> int \<Rightarrow> int \<Rightarrow> int" where
  "ymd2ord y m d = days_before_year y + days_before_month y m + d"

text \<open>
  \<^verbatim>\<open>_ord2ymd\<close>: the ordinal back to year, month and day, through the 400, 100, 4 and
  1 year cycles and a month estimate that is corrected when it is one too large.
\<close>

definition ord2ymd :: "int \<Rightarrow> int \<times> int \<times> int" where
  "ord2ymd ordinal =
     (let n = ordinal - 1;
          n400 = n div 146097; n = n mod 146097;
          n100 = n div 36524; n = n mod 36524;
          n4 = n div 1461; n = n mod 1461;
          n1 = n div 365; n = n mod 365;
          y = n400 * 400 + 1 + n100 * 100 + n4 * 4 + n1
      in if n1 = 4 \<or> n100 = 4 then (y - 1, 12, 31)
         else
           (let leapyear = (n1 = 3 \<and> (n4 \<noteq> 24 \<or> n100 = 3));
                m = (n + 50) div 32;
                preceding = DAYS_BEFORE_MONTH ! nat m + (if 2 < m \<and> leapyear then 1 else 0)
            in if n < preceding
               then (let m' = m - 1;
                         preceding' = preceding
                           - (DAYS_IN_MONTH ! nat m' + (if m' = 2 \<and> leapyear then 1 else 0))
                     in (y, m', n - preceding' + 1))
               else (y, m, n - preceding + 1)))"

text \<open>
  \<^verbatim>\<open>datetime.fromtimestamp(t, tz=timezone.utc)\<close>: the seconds are split from the
  fraction, the fraction is rounded to microseconds (ties to even), and the date must lie
  in the years 1 to 9999 (ordinals 1 to 3652059), or the call raises. The ordinal of the
  epoch 1970-01-01 is 719163.
\<close>

definition fromtimestamp_utc :: "real \<Rightarrow> py_error + datetime" where
  "fromtimestamp_utc t =
     (let secs = \<lfloor>t\<rfloor>;
          us = round_half_even ((t - of_int secs) * 1000000);
          secs = (if us = 1000000 then secs + 1 else secs);
          us = (if us = 1000000 then 0 else us);
          ordinal = secs div 86400 + 719163;
          rem = secs mod 86400
      in if ordinal < 1 \<or> 3652059 < ordinal then Inl ValueError
         else (case ord2ymd ordinal of (y, m, d) \<Rightarrow>
           Inr \<lparr>year = y, month = m, day = d,
                hour = rem div 3600, minute = rem mod 3600 div 60, second = rem mod 60,
                microsecond = us\<rparr>))"

text \<open>The decimal digits of \<open>n\<close>, zero-padded to the width \<open>w\<close> (\<^verbatim>\<open>"%0wd" % n\<close>, \<open>0 \<le> n < 10 ^ w\<close>).\<close>

definition digit_char :: "int \<Rightarrow> char" where
  "digit_char d = char_of (48 + d)"

fun zero_pad :: "nat \<Rightarrow> int \<Rightarrow> string" where
  "zero_pad 0 n = []"
| "zero_pad (Suc w) n = zero_pad w (n div 10) @ [digit_char (n mod 10)]"

text \<open>
  \<^verbatim>\<open>isoformat()\<close> of an aware datetime in UTC: the fraction is printed with six digits,
  and left out when the microsecond is zero; the offset is \<^verbatim>\<open>+00:00\<close>.
\<close>

definition isoformat :: "datetime \<Rightarrow> string" where
  "isoformat dt =
     zero_pad 4 (year dt) @ ''-'' @ zero_pad 2 (month dt) @ ''-'' @ zero_pad 2 (day dt)
     @ ''T'' @ zero_pad 2 (hour dt) @ '':'' @ zero_pad 2 (minute dt) @ '':''
     @ zero_pad 2 (second dt)
     @ (if microsecond dt \<noteq> 0 then ''.'' @ zero_pad 6 (microsecond dt) else [])
     @ ''+00:00''"

section \<open>The program\<close>

definition valid_modes :: "string list" where
  "valid_modes = [''normal'', ''abnormal'', ''stopped'']"

text \<open>
  The state at import: mode \<^verbatim>\<open>'stopped'\<close>, the clock at \<^verbatim>\<open>int(time.time() * 1000)\<close>
  for the reading \<open>wall\<close> of \<^verbatim>\<open>time.time()\<close>, phase 0.
\<close>

definition initial_state :: "real \<Rightarrow> state" where
  "initial_state wall =
     \<lparr>generation_mode = ''stopped'', current_time_ms = py_int (wall * 1000), phase = 0\<rparr>"

text \<open>
  \<^verbatim>\<open>generate_ecg_point\<close>: the value and the phase by mode, then the clock advances by
  100 ms and the point is built from the advanced clock. The conversion to a datetime can
  raise; the globals are already updated then. The first assignment of the function, the
  wall-clock \<^verbatim>\<open>timestamp\<close>, is never read and is left out. The last branch is taken for
  every mode that is neither \<^verbatim>\<open>'normal'\<close> nor \<^verbatim>\<open>'abnormal'\<close>.
\<close>

definition generate_ecg_point :: "rng \<Rightarrow> state \<Rightarrow> (py_error + json) \<times> rng \<times> state" where
  "generate_ecg_point g s =
     (let time_increment_ms = 100;
          (val, ph, g') =
            (if generation_mode s = ''normal'' then (sin (phase s) * 50 + 60, phase s + 0.5, g)
             else if generation_mode s = ''abnormal'' then
               (case random_random g of (r, g1) \<Rightarrow>
                  if r < 0.1 then (case random_uniform 130 180 g1 of (u, g2) \<Rightarrow> (u, phase s, g2))
                  else (sin (phase s) * 40 + 65, phase s + 0.45, g1))
             else (0, phase s, g));
          s' = s\<lparr>current_time_ms := current_time_ms s + time_increment_ms, phase := ph\<rparr>
      in case fromtimestamp_utc (of_int (current_time_ms s') / 1000) of
           Inl e \<Rightarrow> (Inl e, g', s')
         | Inr dt \<Rightarrow>
             (Inr (JObj [(''time'', JStr (isoformat dt)), (''value'', JNum (py_round val 2))]),
              g', s'))"

text \<open>\<^verbatim>\<open>GET /status\<close>\<close>

definition get_status :: "state \<Rightarrow> response" where
  "get_status s = (JObj [(''mode'', JStr (generation_mode s))], 200)"

text \<open>
  \<^verbatim>\<open>POST /set_mode/<mode>\<close> with the reading \<open>wall\<close> of \<^verbatim>\<open>time.time()\<close>: the response,
  the lines printed, and the globals afterwards.
\<close>

definition set_mode :: "real \<Rightarrow> string \<Rightarrow> state \<Rightarrow> response \<times> string list \<times> state" where
  "set_mode wall mode s =
     (if mode \<in> set valid_modes then
        (let s1 = (if generation_mode s = ''stopped'' \<and> mode \<noteq> ''stopped''
                   then s\<lparr>current_time_ms := py_int (wall * 1000), phase := 0\<rparr> else s);
             s2 = s1\<lparr>generation_mode := mode\<rparr>
         in ((JObj [(''status'', JStr ''success''), (''new_mode'', JStr (generation_mode s2))], 200),
             [''Generation mode set to: '' @ generation_mode s2], s2))
      else
        ((JObj [(''status'', JStr ''error''),
                (''message'', JStr (''Invalid mode. Use one of: '' @ str_join '', '' valid_modes))],
          400), [], s))"

text \<open>
  \<^verbatim>\<open>GET /data\<close>: the empty list when stopped, else a list with the one generated point.
  An exception in the generator is the framework's error response.
\<close>

definition get_data :: "rng \<Rightarrow> state \<Rightarrow> (py_error + response) \<times> rng \<times> state" where
  "get_data g s =
     (if generation_mode s = ''stopped'' then (Inr (JArr [], 200), g, s)
      else (case generate_ecg_point g s of
              (Inl e, g', s') \<Rightarrow> (Inl e, g', s')
            | (Inr data_point, g', s') \<Rightarrow> (Inr (JArr [data_point], 200), g', s')))"

section \<open>Requests in sequence\<close>

text \<open>
  The three routes of the application. Every request is served with the reading of
  \<^verbatim>\<open>time.time()\<close> at that moment; only \<^verbatim>\<open>set_mode\<close> looks at it. The world is the
  random number generator and the globals.
\<close>

datatype request = Status | Set_Mode string | Data

fun step :: "rng \<times> state \<Rightarrow> real \<times> request \<Rightarrow> rng \<times> state" where
  "step (g, s) (wall, Status) = (g, s)"
| "step (g, s) (wall, Set_Mode m) = (g, snd (snd (set_mode wall m s)))"
| "step (g, s) (wall, Data) = snd (get_data g s)"

text \<open>The simulated clock before the first request and after each request of a sequence.\<close>

fun clocks :: "rng \<times> state \<Rightarrow> (real \<times> request) list \<Rightarrow> int list" where
  "clocks w [] = [current_time_ms (snd w)]"
| "clocks w (r # rs) = current_time_ms (snd w) # clocks (step w r) rs"

text \<open>A restart is a valid \<^verbatim>\<open>set_mode\<close> to a running mode while stopped: the request that resets.\<close>

definition is_restart :: "state \<Rightarrow> request \<Rightarrow> bool" where
  "is_restart s r =
     (case r of
        Set_Mode m \<Rightarrow> m \<in> set valid_modes \<and> generation_mode s = ''stopped'' \<and> m \<noteq> ''stopped''
      | _ \<Rightarrow> False)"

text \<open>No restart of the sequence reads a wall clock that is behind the simulated clock.\<close>

fun restarts_not_behind :: "rng \<times> state \<Rightarrow> (real \<times> request) list \<Rightarrow> bool" where
  "restarts_not_behind w [] = True"
| "restarts_not_behind w ((wall, r) # rs) =
     ((is_restart (snd w) r \<longrightarrow> current_time_ms (snd w) \<le> py_int (wall * 1000))
      \<and> restarts_not_behind (step w (wall, r)) rs)"

section \<open>Timestamps that are whole milliseconds\<close>

text \<open>
  The clock is an integer number of milliseconds, so the generator only converts
  timestamps \<open>ms / 1000\<close>. The dates \<^verbatim>\<open>datetime\<close> can represent, the years 1 to 9999,
  are the milliseconds from -62135596800000 to 253402300799999.
\<close>

definition in_datetime_range :: "int \<Rightarrow> bool" where
  "in_datetime_range ms = (-62135596800000 \<le> ms \<and> ms \<le> 253402300799999)"

definition datetime_of_ms :: "int \<Rightarrow> datetime" where
  "datetime_of_ms ms =
     (case ord2ymd (ms div 86400000 + 719163) of (y, m, d) \<Rightarrow>
        \<lparr>year = y, month = m, day = d,
         hour = ms div 1000 mod 86400 div 3600,
         minute = ms div 1000 mod 86400 mod 3600 div 60,
         second = ms div 1000 mod 86400 mod 60,
         microsecond = ms mod 1000 * 1000\<rparr>)"

section \<open>What an ISO-8601 string denotes\<close>

text \<open>
  The reading of a timestamp string \<^verbatim>\<open>YYYY-MM-DDTHH:MM:SS[.ffffff]+00:00\<close>: the instant it
  denotes, in microseconds since 1970-01-01T00:00:00 UTC, or nothing when the string does
  not have this layout. This is the meaning of the \<^verbatim>\<open>time\<close> field for a client; it is
  not code of the program.
\<close>

definition digit_val :: "char \<Rightarrow> int" where
  "digit_val c = of_char c - 48"

definition is_digit :: "char \<Rightarrow> bool" where
  "is_digit c = ((48::int) \<le> of_char c \<and> of_char c \<le> (57::int))"

definition digits_val :: "string \<Rightarrow> int" where
  "digits_val cs = foldl (\<lambda>acc c. 10 * acc + digit_val c) 0 cs"

definition parse_isoformat :: "string \<Rightarrow> int option" where
  "parse_isoformat tm =
     (let n = length tm;
          frac = (if n = 32 then take 7 (drop 19 tm) else []);
          fields = [take 4 tm, take 2 (drop 5 tm), take 2 (drop 8 tm), take 2 (drop 11 tm),
                    take 2 (drop 14 tm), take 2 (drop 17 tm), drop 1 frac]
      in if (n = 25 \<or> n = 32 \<and> take 1 frac = ''.'')
            \<and> [tm ! 4, tm ! 7, tm ! 10, tm ! 13, tm ! 16] = ''--T::''
            \<and> drop (n - 6) tm = ''+00:00''
            \<and> list_all (list_all is_digit) fields
         then (case map digits_val fields of
                 [y, mo, d, h, mi, s, us] \<Rightarrow>
                   Some (((ymd2ord y mo d - 719163) * 86400 + h * 3600 + mi * 60 + s) * 1000000 + us)
               | _ \<Rightarrow> None)
         else None)"

section \<open>Rounding\<close>

lemma round_half_even_of_int [simp]: "round_half_even (of_int k) = k"
  by (simp add: round_half_even_def)

lemma round_half_even_bounds:
  assumes "of_int lo \<le> x" and "x \<le> of_int hi"
  shows "lo \<le> round_half_even x \<and> round_half_even x \<le> hi"
proof -
  have lo: "lo \<le> \<lfloor>x\<rfloor>" using assms(1) by (simp add: le_floor_iff)
  have hi: "\<lfloor>x\<rfloor> \<le> hi" using assms(2) by (simp add: floor_le_iff)
  have up: "\<lfloor>x\<rfloor> + 1 \<le> hi" if "x - of_int \<lfloor>x\<rfloor> \<noteq> 0"
  proof -
    from that have "x \<noteq> of_int hi" by auto
    with assms(2) have "x < of_int hi" by simp
    then have "\<lfloor>x\<rfloor> < hi" by (simp add: floor_less_iff)
    then show ?thesis by simp
  qed
  show ?thesis
    using lo hi up unfolding round_half_even_def Let_def by auto
qed

lemma py_round_2_bounds:
  assumes "of_int lo \<le> x" and "x \<le> of_int hi"
  shows "of_int lo \<le> py_round x 2 \<and> py_round x 2 \<le> of_int hi"
proof -
  have a: "of_int (lo * 100) \<le> x * 10 ^ 2" using assms(1) by simp
  have b: "x * 10 ^ 2 \<le> of_int (hi * 100)" using assms(2) by simp
  from round_half_even_bounds [OF a b]
  have "lo * 100 \<le> round_half_even (x * 10 ^ 2)" "round_half_even (x * 10 ^ 2) \<le> hi * 100"
    by simp_all
  then have "of_int (lo * 100) \<le> (of_int (round_half_even (x * 10 ^ 2)) :: real)"
    "(of_int (round_half_even (x * 10 ^ 2)) :: real) \<le> of_int (hi * 100)"
    by (simp_all only: of_int_le_iff)
  then show ?thesis unfolding py_round_def by (simp add: field_simps)
qed

lemma py_round_of_int: "py_round (of_int k) 2 = of_int k"
proof -
  have "(of_int k :: real) * 10 ^ 2 = of_int (k * 100)" by simp
  then have "round_half_even (of_int k * 10 ^ 2) = k * 100"
    by (simp only: round_half_even_of_int)
  then show ?thesis by (simp add: py_round_def)
qed

lemma py_round_numeral [simp]: "py_round (numeral k) 2 = numeral k"
  using py_round_of_int [of "numeral k"] by simp

lemma py_round_zero [simp]: "py_round 0 2 = 0"
  using py_round_of_int [of 0] by simp

section \<open>The conversion of the clock\<close>

lemma floor_ms: "\<lfloor>(of_int ms :: real) / 1000\<rfloor> = ms div 1000"
  using floor_divide_of_int_eq [of ms 1000, where ?'a = real] by simp

lemma frac_ms:
  "((of_int ms :: real) / 1000 - of_int (ms div 1000)) * 1000000 = of_int (ms mod 1000 * 1000)"
proof -
  have "ms = ms div 1000 * 1000 + ms mod 1000" by simp
  then have "(of_int ms :: real) = of_int (ms div 1000) * 1000 + of_int (ms mod 1000)"
    by (metis of_int_add of_int_mult of_int_numeral)
  then have "(of_int ms :: real) / 1000 - of_int (ms div 1000) = of_int (ms mod 1000) / 1000"
    by (simp add: add_divide_distrib)
  then show ?thesis by simp
qed

lemma fromtimestamp_utc_ms:
  "fromtimestamp_utc (of_int ms / 1000) =
     (if in_datetime_range ms then Inr (datetime_of_ms ms) else Inl ValueError)"
proof -
  have us: "(ms mod 1000 * 1000 = 1000000) = False"
  proof -
    have "ms mod 1000 < 1000" by simp
    then have "ms mod 1000 * 1000 \<noteq> 1000000" by linarith
    then show ?thesis by simp
  qed
  have d: "ms div 1000 div 86400 = ms div 86400000"
    by (simp add: div_mult2_eq [symmetric])
  have r: "(ms div 86400000 + 719163 < 1 \<or> 3652059 < ms div 86400000 + 719163)
      = (\<not> in_datetime_range ms)"
  proof -
    define q where "q = ms div 86400000"
    define k where "k = ms mod 86400000"
    have "ms = 86400000 * q + k" "0 \<le> k" "k < 86400000"
      by (simp_all add: q_def k_def)
    then show ?thesis
      unfolding in_datetime_range_def q_def [symmetric] by linarith
  qed
  show ?thesis
    apply (simp only: fromtimestamp_utc_def Let_def floor_ms frac_ms round_half_even_of_int)
    apply (simp only: us if_False d r)
    apply (simp add: datetime_of_ms_def split: prod.splits)
    done
qed

section \<open>What one call does to the globals and what it returns\<close>

lemma generate_ecg_point_world:
  "snd (generate_ecg_point g s) =
     (if generation_mode s = ''normal''
        then (g, s\<lparr>current_time_ms := current_time_ms s + 100, phase := phase s + 0.5\<rparr>)
      else if generation_mode s = ''abnormal''
        then (if shd g < 0.1
              then (stl (stl g), s\<lparr>current_time_ms := current_time_ms s + 100\<rparr>)
              else (stl g, s\<lparr>current_time_ms := current_time_ms s + 100,
                              phase := phase s + 0.45\<rparr>))
      else (g, s\<lparr>current_time_ms := current_time_ms s + 100\<rparr>))"
  by (simp add: generate_ecg_point_def random_random_def random_uniform_def Let_def
      split: sum.splits)

lemma generate_ecg_point_clock:
  "current_time_ms (snd (snd (generate_ecg_point g s))) = current_time_ms s + 100"
  by (simp add: generate_ecg_point_world)

lemma fst_generate_ecg_point:
  assumes "in_datetime_range (current_time_ms s + 100)"
  shows "fst (generate_ecg_point g s) =
     Inr (JObj [(''time'', JStr (isoformat (datetime_of_ms (current_time_ms s + 100)))),
                (''value'', JNum (py_round
                   (if generation_mode s = ''normal'' then sin (phase s) * 50 + 60
                    else if generation_mode s = ''abnormal''
                      then (if shd g < 0.1 then 130 + (180 - 130) * shd (stl g)
                            else sin (phase s) * 40 + 65)
                    else 0) 2))])"
  using assms
  by (simp add: generate_ecg_point_def random_random_def random_uniform_def Let_def
      fromtimestamp_utc_ms)

lemma get_data_world:
  "snd (get_data g s) =
     (if generation_mode s = ''stopped'' then (g, s) else snd (generate_ecg_point g s))"
  by (simp add: get_data_def split: prod.splits sum.splits)

lemma get_data_clock:
  "current_time_ms (snd (snd (get_data g s))) =
     (if generation_mode s = ''stopped'' then current_time_ms s else current_time_ms s + 100)"
  by (simp add: get_data_world generate_ecg_point_clock)

lemma fst_get_data:
  assumes "generation_mode s \<noteq> ''stopped''" and "in_datetime_range (current_time_ms s + 100)"
  shows "fst (get_data g s) = Inr (JArr [projr (fst (generate_ecg_point g s))], 200)"
  using assms(1) fst_generate_ecg_point [OF assms(2), of g]
  by (cases "generate_ecg_point g s") (auto simp: get_data_def)

lemma set_mode_state:
  "snd (snd (set_mode wall m s)) =
     (if m \<in> set valid_modes
      then (if generation_mode s = ''stopped'' \<and> m \<noteq> ''stopped''
            then \<lparr>generation_mode = m, current_time_ms = py_int (wall * 1000), phase = 0\<rparr>
            else s\<lparr>generation_mode := m\<rparr>)
      else s)"
  by (simp add: set_mode_def Let_def)

lemma step_clock:
  "\<not> is_restart (snd w) r \<or> current_time_ms (snd w) \<le> py_int (wall * 1000)
   \<Longrightarrow> current_time_ms (snd w) \<le> current_time_ms (snd (step w (wall, r)))"
  by (cases w; cases r) (auto simp: is_restart_def set_mode_state get_data_clock)

lemma clocks_hd: "hd (clocks w rs) = current_time_ms (snd w)"
  by (cases rs) simp_all

lemma clocks_sorted:
  "restarts_not_behind w rs \<Longrightarrow> sorted (clocks w rs)"
proof (induction rs arbitrary: w)
  case Nil
  then show ?case by simp
next
  case (Cons r rs)
  obtain wall q where r: "r = (wall, q)" by (cases r)
  from Cons.prems r
  have ok: "is_restart (snd w) q \<longrightarrow> current_time_ms (snd w) \<le> py_int (wall * 1000)"
    and rest: "restarts_not_behind (step w (wall, q)) rs" by simp_all
  have le: "current_time_ms (snd w) \<le> current_time_ms (snd (step w (wall, q)))"
    using ok by (intro step_clock) blast
  have srt: "sorted (clocks (step w (wall, q)) rs)" using Cons.IH rest by blast
  have "\<forall>x \<in> set (clocks (step w (wall, q)) rs). current_time_ms (snd (step w (wall, q))) \<le> x"
    using srt clocks_hd [of "step w (wall, q)" rs]
    by (cases "clocks (step w (wall, q)) rs") auto
  with le srt show ?case unfolding r by fastforce
qed

section \<open>The calendar: ordinals and dates\<close>

lemma year_divs:
  fixes a b c d :: int
  assumes "0 \<le> b" "b \<le> 3" "0 \<le> c" "c \<le> 24" "0 \<le> d" "d \<le> 3"
  shows "(400 * a + 100 * b + 4 * c + d) div 4 = 100 * a + 25 * b + c"
    and "(400 * a + 100 * b + 4 * c + d) div 100 = 4 * a + b"
    and "(400 * a + 100 * b + 4 * c + d) div 400 = a"
proof -
  show "(400 * a + 100 * b + 4 * c + d) div 4 = 100 * a + 25 * b + c"
    by (rule int_div_pos_eq [where r = d]) (use assms in simp_all)
  show "(400 * a + 100 * b + 4 * c + d) div 100 = 4 * a + b"
    by (rule int_div_pos_eq [where r = "4 * c + d"]) (use assms in simp_all)
  show "(400 * a + 100 * b + 4 * c + d) div 400 = a"
    by (rule int_div_pos_eq [where r = "100 * b + 4 * c + d"]) (use assms in simp_all)
qed

lemma days_before_year_cycle:
  fixes a b c d :: int
  assumes "0 \<le> b" "b \<le> 3" "0 \<le> c" "c \<le> 24" "0 \<le> d" "d \<le> 3"
  shows "days_before_year (400 * a + 100 * b + 4 * c + d + 1)
           = 146097 * a + 36524 * b + 1461 * c + 365 * d"
  unfolding days_before_year_def
  using year_divs [OF assms, of a] by simp


lemma year_mods:
  fixes a b c d :: int
  assumes "0 \<le> b" "b \<le> 3" "0 \<le> c" "c \<le> 24" "0 \<le> d" "d \<le> 3"
  shows "(400 * a + 100 * b + 4 * c + d + 1) mod 4 = (if d = 3 then 0 else d + 1)"
    and "(400 * a + 100 * b + 4 * c + d + 1) mod 100
           = (if c = 24 \<and> d = 3 then 0 else 4 * c + d + 1)"
    and "(400 * a + 100 * b + 4 * c + d + 1) mod 400
           = (if b = 3 \<and> c = 24 \<and> d = 3 then 0 else 100 * b + 4 * c + d + 1)"
proof -
  let ?y = "400 * a + 100 * b + 4 * c + d + 1"
  show "?y mod 4 = (if d = 3 then 0 else d + 1)"
  proof (cases "d = 3")
    case True
    have "?y mod 4 = 0"
      by (rule int_mod_pos_eq [where q = "100 * a + 25 * b + c + 1"]) (use True in simp_all)
    then show ?thesis using True by simp
  next
    case False
    have "?y mod 4 = d + 1"
      by (rule int_mod_pos_eq [where q = "100 * a + 25 * b + c"]) (use False assms in simp_all)
    then show ?thesis using False by simp
  qed
  show "?y mod 100 = (if c = 24 \<and> d = 3 then 0 else 4 * c + d + 1)"
  proof (cases "c = 24 \<and> d = 3")
    case True
    have "?y mod 100 = 0"
      by (rule int_mod_pos_eq [where q = "4 * a + b + 1"]) (use True in simp_all)
    then show ?thesis using True by simp
  next
    case False
    then have "4 * c + d + 1 < 100" using assms by linarith
    then have "?y mod 100 = 4 * c + d + 1"
      by (intro int_mod_pos_eq [where q = "4 * a + b"]) (use assms in simp_all)
    then show ?thesis using False by simp
  qed
  show "?y mod 400 = (if b = 3 \<and> c = 24 \<and> d = 3 then 0 else 100 * b + 4 * c + d + 1)"
  proof (cases "b = 3 \<and> c = 24 \<and> d = 3")
    case True
    have "?y mod 400 = 0"
      by (rule int_mod_pos_eq [where q = "a + 1"]) (use True in simp_all)
    then show ?thesis using True by simp
  next
    case False
    then have "100 * b + 4 * c + d + 1 < 400" using assms by linarith
    then have "?y mod 400 = 100 * b + 4 * c + d + 1"
      by (intro int_mod_pos_eq [where q = a]) (use assms in simp_all)
    then show ?thesis using False by simp
  qed
qed

lemma is_leap_cycle:
  fixes a b c d :: int
  assumes "0 \<le> b" "b \<le> 3" "0 \<le> c" "c \<le> 24" "0 \<le> d" "d \<le> 3"
  shows "is_leap (400 * a + 100 * b + 4 * c + d + 1) = (d = 3 \<and> (c \<noteq> 24 \<or> b = 3))"
  unfolding is_leap_def year_mods [OF assms]
  using assms by auto


lemma nth_DBM:
  "DAYS_BEFORE_MONTH ! Suc 0 = 0" "DAYS_BEFORE_MONTH ! 2 = 31" "DAYS_BEFORE_MONTH ! 3 = 59"
  "DAYS_BEFORE_MONTH ! 4 = 90" "DAYS_BEFORE_MONTH ! 5 = 120" "DAYS_BEFORE_MONTH ! 6 = 151"
  "DAYS_BEFORE_MONTH ! 7 = 181" "DAYS_BEFORE_MONTH ! 8 = 212" "DAYS_BEFORE_MONTH ! 9 = 243"
  "DAYS_BEFORE_MONTH ! 10 = 273" "DAYS_BEFORE_MONTH ! 11 = 304" "DAYS_BEFORE_MONTH ! 12 = 334"
  by (simp_all add: DAYS_BEFORE_MONTH_def)

lemma nth_DIM:
  "DAYS_IN_MONTH ! Suc 0 = 31" "DAYS_IN_MONTH ! 2 = 28" "DAYS_IN_MONTH ! 3 = 31"
  "DAYS_IN_MONTH ! 4 = 30" "DAYS_IN_MONTH ! 5 = 31" "DAYS_IN_MONTH ! 6 = 30"
  "DAYS_IN_MONTH ! 7 = 31" "DAYS_IN_MONTH ! 8 = 31" "DAYS_IN_MONTH ! 9 = 30"
  "DAYS_IN_MONTH ! 10 = 31" "DAYS_IN_MONTH ! 11 = 30" "DAYS_IN_MONTH ! 12 = 31"
  by (simp_all add: DAYS_IN_MONTH_def)

lemma month_day:
  fixes e :: int
  assumes "0 \<le> e" "e < 365"
  shows "case (let m = (e + 50) div 32;
                   preceding = DAYS_BEFORE_MONTH ! nat m + (if 2 < m \<and> L then 1 else 0)
               in if e < preceding
                  then (let m' = m - 1;
                            preceding' = preceding
                              - (DAYS_IN_MONTH ! nat m' + (if m' = 2 \<and> L then 1 else 0))
                        in (m', e - preceding' + 1))
                  else (m, e - preceding + 1)) of
           (mo, dd) \<Rightarrow>
             DAYS_BEFORE_MONTH ! nat mo + (if 2 < mo \<and> L then 1 else 0) + dd = e + 1 \<and>
             1 \<le> mo \<and> mo \<le> 12 \<and> 1 \<le> dd \<and> dd \<le> 31"
proof -
  define m where "m = (e + 50) div 32"
  define k where "k = (e + 50) mod 32"
  have ek: "e + 50 = 32 * m + k" "0 \<le> k" "k < 32" by (simp_all add: m_def k_def)
  then have "1 \<le> m" "m \<le> 12" using assms by linarith+
  then have "m = 1 \<or> m = 2 \<or> m = 3 \<or> m = 4 \<or> m = 5 \<or> m = 6
    \<or> m = 7 \<or> m = 8 \<or> m = 9 \<or> m = 10 \<or> m = 11 \<or> m = 12"
    by arith
  then consider "m = 1" | "m = 2" | "m = 3" | "m = 4" | "m = 5" | "m = 6"
    | "m = 7" | "m = 8" | "m = 9" | "m = 10" | "m = 11" | "m = 12"
    by blast
  then show ?thesis
  proof cases
    case 1 then show ?thesis using ek assms unfolding m_def [symmetric] Let_def
      by (simp add: nth_DBM nth_DIM)
  next
    case 2 then show ?thesis using ek assms unfolding m_def [symmetric] Let_def
      by (simp add: nth_DBM nth_DIM)
  next
    case 3 then show ?thesis using ek assms unfolding m_def [symmetric] Let_def
      by (simp add: nth_DBM nth_DIM)
  next
    case 4 then show ?thesis using ek assms unfolding m_def [symmetric] Let_def
      by (simp add: nth_DBM nth_DIM)
  next
    case 5 then show ?thesis using ek assms unfolding m_def [symmetric] Let_def
      by (simp add: nth_DBM nth_DIM)
  next
    case 6 then show ?thesis using ek assms unfolding m_def [symmetric] Let_def
      by (simp add: nth_DBM nth_DIM)
  next
    case 7 then show ?thesis using ek assms unfolding m_def [symmetric] Let_def
      by (simp add: nth_DBM nth_DIM)
  next
    case 8 then show ?thesis using ek assms unfolding m_def [symmetric] Let_def
      by (simp add: nth_DBM nth_DIM)
  next
    case 9 then show ?thesis using ek assms unfolding m_def [symmetric] Let_def
      by (simp add: nth_DBM nth_DIM)
  next
    case 10 then show ?thesis using ek assms unfolding m_def [symmetric] Let_def
      by (simp add: nth_DBM nth_DIM)
  next
    case 11 then show ?thesis using ek assms unfolding m_def [symmetric] Let_def
      by (simp add: nth_DBM nth_DIM)
  next
    case 12 then show ?thesis using ek assms unfolding m_def [symmetric] Let_def
      by (simp add: nth_DBM nth_DIM)
  qed
qed


lemma ord2ymd_ymd2ord:
  assumes "1 \<le> n"
  shows "case ord2ymd n of (y, m, d) \<Rightarrow>
           ymd2ord y m d = n \<and> 1 \<le> y \<and> 1 \<le> m \<and> m \<le> 12 \<and> 1 \<le> d \<and> d \<le> 31"
proof -
  define N where "N = n - 1"
  define a where "a = N div 146097"
  define r1 where "r1 = N mod 146097"
  define b where "b = r1 div 36524"
  define r2 where "r2 = r1 mod 36524"
  define c where "c = r2 div 1461"
  define r3 where "r3 = r2 mod 1461"
  define d where "d = r3 div 365"
  define e where "e = r3 mod 365"
  have N: "N = 146097 * a + r1" "0 \<le> r1" "r1 < 146097"
    by (simp_all add: a_def r1_def)
  have R1: "r1 = 36524 * b + r2" "0 \<le> r2" "r2 < 36524"
    by (simp_all add: b_def r2_def)
  have R2: "r2 = 1461 * c + r3" "0 \<le> r3" "r3 < 1461"
    by (simp_all add: c_def r3_def)
  have R3: "r3 = 365 * d + e" "0 \<le> e" "e < 365"
    by (simp_all add: d_def e_def)
  have "0 \<le> N" using assms by (simp add: N_def)
  then have a0: "0 \<le> a" by (simp add: a_def pos_imp_zdiv_nonneg_iff)
  have b0: "0 \<le> b" "b \<le> 4" using N R1 by linarith+
  have c0: "0 \<le> c" "c \<le> 24" using R1 R2 by linarith+
  have d0: "0 \<le> d" "d \<le> 4" using R2 R3 by linarith+
  have n: "n = 146097 * a + 36524 * b + 1461 * c + 365 * d + e + 1"
    using N R1 R2 R3 by (simp add: N_def)
  have unf: "ord2ymd n =
     (let y = a * 400 + 1 + b * 100 + c * 4 + d
      in if d = 4 \<or> b = 4 then (y - 1, 12, 31)
         else
           (let leapyear = (d = 3 \<and> (c \<noteq> 24 \<or> b = 3));
                m = (e + 50) div 32;
                preceding = DAYS_BEFORE_MONTH ! nat m + (if 2 < m \<and> leapyear then 1 else 0)
            in if e < preceding
               then (let m' = m - 1;
                         preceding' = preceding
                           - (DAYS_IN_MONTH ! nat m' + (if m' = 2 \<and> leapyear then 1 else 0))
                     in (y, m', e - preceding' + 1))
               else (y, m, e - preceding + 1)))"
    unfolding e_def d_def r3_def c_def r2_def b_def r1_def a_def N_def ord2ymd_def Let_def
    by (rule refl)
  show ?thesis
  proof (cases "b = 4")
    case True
    then have "r2 = 0" using N R1 by linarith
    then have z: "c = 0" "d = 0" "e = 0" by (simp_all add: c_def r3_def d_def e_def)
    have y: "a * 400 + 1 + b * 100 + c * 4 + d - 1 = 400 * a + 100 * 3 + 4 * 24 + 3 + 1"
      using True z by simp
    have "ord2ymd n = (400 * a + 100 * 3 + 4 * 24 + 3 + 1, 12, 31)"
      unfolding unf Let_def y using True by simp
    moreover have "days_before_year (400 * a + 100 * 3 + 4 * 24 + 3 + 1) = 146097 * a + 145731"
      by (subst days_before_year_cycle) simp_all
    moreover have "is_leap (400 * a + 100 * 3 + 4 * 24 + 3 + 1)"
      by (subst is_leap_cycle) simp_all
    ultimately show ?thesis
      using n True z a0 by (simp add: ymd2ord_def days_before_month_def nth_DBM)
  next
    case b4: False
    then have b3: "b \<le> 3" using b0 by simp
    show ?thesis
    proof (cases "d = 4")
      case True
      then have e: "e = 0" using R2 R3 by linarith
      have "c \<noteq> 24" using True R1 R2 R3 by linarith
      then have c23: "c \<le> 23" using c0 by simp
      have y: "a * 400 + 1 + b * 100 + c * 4 + d - 1 = 400 * a + 100 * b + 4 * c + 3 + 1"
        using True by simp
      have "ord2ymd n = (400 * a + 100 * b + 4 * c + 3 + 1, 12, 31)"
        unfolding unf Let_def y using True by simp
      moreover have "days_before_year (400 * a + 100 * b + 4 * c + 3 + 1)
          = 146097 * a + 36524 * b + 1461 * c + 365 * 3"
        using b0 b3 c0 by (subst days_before_year_cycle) simp_all
      moreover have "is_leap (400 * a + 100 * b + 4 * c + 3 + 1)"
        using b0 b3 c0 \<open>c \<noteq> 24\<close> by (subst is_leap_cycle) simp_all
      ultimately show ?thesis
        using n True e a0 b0 c0 by (simp add: ymd2ord_def days_before_month_def nth_DBM)
    next
      case False
      then have d3: "d \<le> 3" using d0 by simp
      define L where "L = (d = 3 \<and> (c \<noteq> 24 \<or> b = 3))"
      define y where "y = 400 * a + 100 * b + 4 * c + d + 1"
      have yy: "a * 400 + 1 + b * 100 + c * 4 + d = y" by (simp add: y_def)
      have dby: "days_before_year y = 146097 * a + 36524 * b + 1461 * c + 365 * d"
        unfolding y_def using b0 b3 c0 d0 d3 by (intro days_before_year_cycle)
      have leap: "is_leap y = L"
        unfolding y_def L_def using b0 b3 c0 d0 d3 by (intro is_leap_cycle)
      have y1: "1 \<le> y" using a0 b0 c0 d0 by (simp add: y_def)
      define MD where "MD = (let m = (e + 50) div 32;
                   preceding = DAYS_BEFORE_MONTH ! nat m + (if 2 < m \<and> L then 1 else 0)
               in if e < preceding
                  then (let m' = m - 1;
                            preceding' = preceding
                              - (DAYS_IN_MONTH ! nat m' + (if m' = 2 \<and> L then 1 else 0))
                        in (m', e - preceding' + 1))
                  else (m, e - preceding + 1))"
      obtain mo dd where md: "MD = (mo, dd)" by (meson surj_pair)
      from month_day [OF R3(2,3), of L]
      have "case MD of (mo, dd) \<Rightarrow>
             DAYS_BEFORE_MONTH ! nat mo + (if 2 < mo \<and> L then 1 else 0) + dd = e + 1 \<and>
             1 \<le> mo \<and> mo \<le> 12 \<and> 1 \<le> dd \<and> dd \<le> 31"
        unfolding MD_def .
      then have P: "DAYS_BEFORE_MONTH ! nat mo + (if 2 < mo \<and> L then 1 else 0) + dd = e + 1"
        "1 \<le> mo" "mo \<le> 12" "1 \<le> dd" "dd \<le> 31"
        unfolding md by simp_all
      have "ord2ymd n = (case MD of (mo, dd) \<Rightarrow> (y, mo, dd))"
        unfolding unf MD_def using False b4
        by (simp add: yy Let_def L_def)
      then have "ord2ymd n = (y, mo, dd)"
        unfolding md by simp
      then show ?thesis
        using P dby leap y1 n by (simp add: ymd2ord_def days_before_month_def)
    qed
  qed
qed

section \<open>Printing and reading the timestamp\<close>

lemma length_zero_pad [simp]: "length (zero_pad w n) = w"
  by (induction w arbitrary: n) simp_all

lemma digit_char_val: "0 \<le> d \<Longrightarrow> d \<le> 9 \<Longrightarrow> digit_val (digit_char d) = d \<and> is_digit (digit_char d)"
  by (simp add: digit_val_def digit_char_def is_digit_def)


lemma digits_val_snoc: "digits_val (cs @ [c]) = 10 * digits_val cs + digit_val c"
  by (simp add: digits_val_def)

lemma zero_pad_digits: "list_all is_digit (zero_pad w n)"
  by (induction w arbitrary: n) (simp_all add: digit_char_val)

lemma digits_val_zero_pad: "digits_val (zero_pad w n) = n mod 10 ^ w"
proof (induction w arbitrary: n)
  case 0
  then show ?case by (simp add: digits_val_def)
next
  case (Suc w)
  have d: "digit_val (digit_char (n mod 10)) = n mod 10"
    by (simp add: digit_char_val)
  have "n mod (10 * 10 ^ w) = 10 * (n div 10 mod 10 ^ w) + n mod 10"
    by (rule zmod_zmult2_eq) simp
  then show ?case
    by (simp add: digits_val_snoc Suc.IH d)
qed

lemma digits_val_zero_pad_id:
  "0 \<le> n \<Longrightarrow> n < 10 ^ w \<Longrightarrow> digits_val (zero_pad w n) = n"
  by (simp add: digits_val_zero_pad)

lemma parse_isoformat_layout:
  assumes len: "length Y = 4" "length M = 2" "length D = 2" "length H = 2" "length Mi = 2"
      "length S = 2" "F = [] \<or> length F = 6"
    and dig: "list_all is_digit Y" "list_all is_digit M" "list_all is_digit D"
      "list_all is_digit H" "list_all is_digit Mi" "list_all is_digit S" "list_all is_digit F"
  shows "parse_isoformat (Y @ ''-'' @ M @ ''-'' @ D @ ''T'' @ H @ '':'' @ Mi @ '':'' @ S
           @ (if F \<noteq> [] then ''.'' @ F else []) @ ''+00:00'')
       = Some (((ymd2ord (digits_val Y) (digits_val M) (digits_val D) - 719163) * 86400
                + digits_val H * 3600 + digits_val Mi * 60 + digits_val S) * 1000000
               + digits_val F)"
proof (cases "F = []")
  case True
  then show ?thesis
    using len dig
    by (simp add: parse_isoformat_def Let_def nth_append digits_val_def [of "[]"])
next
  case False
  then have "length F = 6" using len by simp
  then show ?thesis
    using False len dig
    by (simp add: parse_isoformat_def Let_def nth_append)
qed

lemma days_before_month_nonneg:
  assumes "1 \<le> m" "m \<le> 12"
  shows "0 \<le> days_before_month y m"
proof -
  from assms have "m = 1 \<or> m = 2 \<or> m = 3 \<or> m = 4 \<or> m = 5 \<or> m = 6
    \<or> m = 7 \<or> m = 8 \<or> m = 9 \<or> m = 10 \<or> m = 11 \<or> m = 12"
    by arith
  then show ?thesis
    by (elim disjE) (simp_all add: days_before_month_def nth_DBM)
qed

lemma days_before_year_lower:
  assumes "10000 \<le> y"
  shows "3652059 \<le> days_before_year y"
proof -
  define Y where "Y = y - 1"
  define q4 where "q4 = Y div 4"
  define q100 where "q100 = Y div 100"
  define q400 where "q400 = Y div 400"
  have "Y = 4 * q4 + Y mod 4" "Y mod 4 < 4" by (simp_all add: q4_def)
  then have a: "Y - 3 \<le> 4 * q4" by linarith
  have "Y = 100 * q100 + Y mod 100" "0 \<le> Y mod 100" by (simp_all add: q100_def)
  then have b: "100 * q100 \<le> Y" by linarith
  have "Y = 400 * q400 + Y mod 400" "Y mod 400 < 400" by (simp_all add: q400_def)
  then have c: "Y - 399 \<le> 400 * q400" by linarith
  have "9999 \<le> Y" using assms by (simp add: Y_def)
  then have "3652059 \<le> Y * 365 + q4 - q100 + q400" using a b c by linarith
  then show ?thesis
    by (simp add: days_before_year_def Y_def q4_def q100_def q400_def)
qed

lemma ord2ymd_range:
  assumes "1 \<le> n" "n \<le> 3652059"
  shows "case ord2ymd n of (y, m, d) \<Rightarrow>
           ymd2ord y m d = n \<and> 1 \<le> y \<and> y \<le> 9999 \<and> 1 \<le> m \<and> m \<le> 12 \<and> 1 \<le> d \<and> d \<le> 31"
proof -
  obtain y m d where o: "ord2ymd n = (y, m, d)" by (cases "ord2ymd n")
  from ord2ymd_ymd2ord [OF assms(1)] o
  have P: "ymd2ord y m d = n" "1 \<le> y" "1 \<le> m" "m \<le> 12" "1 \<le> d" "d \<le> 31"
    by simp_all
  have "y \<le> 9999"
  proof (rule ccontr)
    assume "\<not> y \<le> 9999"
    then have "3652059 \<le> days_before_year y" by (intro days_before_year_lower) simp
    moreover have "0 \<le> days_before_month y m" using P by (intro days_before_month_nonneg)
    ultimately show False using P(1,5) assms(2) by (simp add: ymd2ord_def)
  qed
  then show ?thesis using o P by simp
qed

lemma parse_isoformat_datetime_of_ms:
  assumes "in_datetime_range ms"
  shows "parse_isoformat (isoformat (datetime_of_ms ms)) = Some (1000 * ms)"
proof -
  define n where "n = ms div 86400000 + 719163"
  define secs where "secs = ms div 1000"
  define sod where "sod = secs mod 86400"
  define us where "us = ms mod 1000 * 1000"
  obtain y m d where o: "ord2ymd n = (y, m, d)" by (cases "ord2ymd n")
  have days: "secs div 86400 = ms div 86400000"
    by (simp add: secs_def div_mult2_eq [symmetric])
  have n: "1 \<le> n" "n \<le> 3652059"
  proof -
    define q where "q = ms div 86400000"
    define k where "k = ms mod 86400000"
    have "ms = 86400000 * q + k" "0 \<le> k" "k < 86400000" by (simp_all add: q_def k_def)
    then show "1 \<le> n" "n \<le> 3652059"
      using assms unfolding in_datetime_range_def n_def q_def [symmetric] by linarith+
  qed
  from ord2ymd_range [OF n] o
  have P: "ymd2ord y m d = n" "1 \<le> y" "y \<le> 9999" "1 \<le> m" "m \<le> 12" "1 \<le> d" "d \<le> 31"
    by simp_all
  have sod: "0 \<le> sod" "sod < 86400" by (simp_all add: sod_def)
  define h where "h = sod div 3600"
  define mi where "mi = sod mod 3600 div 60"
  define s where "s = sod mod 60"
  have hms: "h * 3600 + mi * 60 + s = sod"
  proof -
    have "sod = 3600 * h + sod mod 3600" by (simp add: h_def)
    moreover have "sod mod 3600 = 60 * mi + sod mod 3600 mod 60" by (simp add: mi_def)
    moreover have "sod mod 3600 mod 60 = s" by (simp add: s_def mod_mod_cancel)
    ultimately show ?thesis by linarith
  qed
  have h: "0 \<le> h" "h < 100"
  proof -
    have "sod = 3600 * h + sod mod 3600" "0 \<le> sod mod 3600" "sod mod 3600 < 3600"
      by (simp_all add: h_def)
    then show "0 \<le> h" "h < 100" using sod by linarith+
  qed
  have mi: "0 \<le> mi" "mi < 100"
  proof -
    have "sod mod 3600 = 60 * mi + sod mod 3600 mod 60" "0 \<le> sod mod 3600 mod 60"
      "sod mod 3600 mod 60 < 60" "0 \<le> sod mod 3600" "sod mod 3600 < 3600"
      by (simp_all add: mi_def)
    then show "0 \<le> mi" "mi < 100" by linarith+
  qed
  have s: "0 \<le> s" "s < 100" by (simp_all add: s_def) 
  have us: "0 \<le> us" "us < 1000000"
  proof -
    have "0 \<le> ms mod 1000" "ms mod 1000 < 1000" by simp_all
    then show "0 \<le> us" "us < 1000000" unfolding us_def by linarith+
  qed
  define F where "F = (if us \<noteq> 0 then zero_pad 6 us else [])"
  have dv0: "digits_val [] = 0" by (simp add: digits_val_def)
  have F: "F = [] \<or> length F = 6" "list_all is_digit F" "digits_val F = us"
    using us by (auto simp: F_def zero_pad_digits digits_val_zero_pad_id dv0)
  have Fne: "(F \<noteq> []) = (us \<noteq> 0)"
  proof -
    have "zero_pad 6 us \<noteq> []"
    proof
      assume a: "zero_pad 6 us = []"
      have "length (zero_pad 6 us) = 6" by (rule length_zero_pad)
      then show False unfolding a by simp
    qed
    then show ?thesis by (simp add: F_def)
  qed
  have dt: "datetime_of_ms ms = \<lparr>year = y, month = m, day = d, hour = h, minute = mi,
      second = s, microsecond = us\<rparr>"
    using o by (simp add: datetime_of_ms_def n_def [symmetric] secs_def [symmetric]
        sod_def [symmetric] h_def mi_def s_def us_def)
  have iso: "isoformat (datetime_of_ms ms) =
      zero_pad 4 y @ ''-'' @ zero_pad 2 m @ ''-'' @ zero_pad 2 d @ ''T'' @ zero_pad 2 h
      @ '':'' @ zero_pad 2 mi @ '':'' @ zero_pad 2 s
      @ (if F \<noteq> [] then ''.'' @ F else []) @ ''+00:00''"
    unfolding dt isoformat_def Fne by (simp add: F_def)
  have total: "((n - 719163) * 86400 + h * 3600 + mi * 60 + s) * 1000000 + us = 1000 * ms"
  proof -
    define k where "k = ms mod 1000"
    have "secs = 86400 * (secs div 86400) + sod" by (simp add: sod_def)
    then have a: "(n - 719163) * 86400 + sod = secs" by (simp add: n_def days)
    have b: "ms = 1000 * secs + k" by (simp add: secs_def k_def)
    have c: "us = k * 1000" by (simp add: us_def k_def)
    have "(n - 719163) * 86400 + h * 3600 + mi * 60 + s = secs" using a hms by linarith
    then show ?thesis unfolding c using b by simp
  qed
  have "parse_isoformat (isoformat (datetime_of_ms ms)) =
      Some (((ymd2ord (digits_val (zero_pad 4 y)) (digits_val (zero_pad 2 m))
                (digits_val (zero_pad 2 d)) - 719163) * 86400
             + digits_val (zero_pad 2 h) * 3600 + digits_val (zero_pad 2 mi) * 60
             + digits_val (zero_pad 2 s)) * 1000000 + digits_val F)"
    unfolding iso
    by (rule parse_isoformat_layout) (simp_all add: zero_pad_digits F)
  also have "\<dots> = Some (((n - 719163) * 86400 + h * 3600 + mi * 60 + s) * 1000000 + us)"
    using P h mi s F(3) by (simp add: digits_val_zero_pad_id)
  finally show ?thesis using total by simp
qed

lemma py_round_2_hundredths: "\<exists>k::int. py_round x 2 = of_int k / 100"
  by (auto simp: py_round_def)

lemma get_data_points:
  assumes "fst (get_data g s) = Inr (JArr ps, code)" and "p \<in> set ps"
  shows "in_datetime_range (current_time_ms s + 100) \<and> generation_mode s \<noteq> ''stopped'' \<and>
         p = projr (fst (generate_ecg_point g s))"
proof -
  have ns: "generation_mode s \<noteq> ''stopped''"
    using assms by (auto simp: get_data_def)
  have r: "in_datetime_range (current_time_ms s + 100)"
  proof (rule ccontr)
    assume "\<not> in_datetime_range (current_time_ms s + 100)"
    then have "fst (generate_ecg_point g s) = Inl ValueError"
      by (simp add: generate_ecg_point_def Let_def fromtimestamp_utc_ms split: prod.splits)
    then have "fst (get_data g s) = Inl ValueError"
      using ns by (cases "generate_ecg_point g s") (auto simp: get_data_def)
    with assms(1) show False by simp
  qed
  from fst_get_data [OF ns r, of g] assms show ?thesis using ns r by simp
qed


lemma isoformat_example:
  "isoformat (datetime_of_ms 1700000000100) = ''2023-11-14T22:13:20.100000+00:00''"
  by code_simp

section \<open>Claims\<close>

text \<open>
  C1. For every valid requested mode \<open>m\<close> (stopped, normal, abnormal), \<^verbatim>\<open>set_mode(m)\<close>
  succeeds and makes \<open>m\<close> the current mode, so that the status route reports \<open>m\<close>
  afterwards. The clock is reset to the wall clock in milliseconds and the phase to 0
  exactly when the mode was stopped and \<open>m\<close> is not; in every other case (between normal
  and abnormal, into stopped, stopped to stopped) clock and phase are unchanged.
\<close>

theorem set_mode_valid:
  assumes "m \<in> {''stopped'', ''normal'', ''abnormal''}"
  shows "case set_mode wall m s of (resp, out, s') \<Rightarrow>
     resp = (JObj [(''status'', JStr ''success''), (''new_mode'', JStr m)], 200) \<and>
     generation_mode s' = m \<and>
     get_status s' = (JObj [(''mode'', JStr m)], 200) \<and>
     (if generation_mode s = ''stopped'' \<and> m \<noteq> ''stopped''
      then current_time_ms s' = py_int (wall * 1000) \<and> phase s' = 0
      else current_time_ms s' = current_time_ms s \<and> phase s' = phase s)"
  using assms by (auto simp: set_mode_def get_status_def valid_modes_def Let_def)

theorem set_mode_valid_witness:
  "''normal'' \<in> {''stopped'', ''normal'', ''abnormal''} \<and>
   (case set_mode (17 / 10) ''normal''
           \<lparr>generation_mode = ''stopped'', current_time_ms = 5, phase = 3\<rparr>
    of (resp, out, s') \<Rightarrow>
      generation_mode s' = ''normal'' \<and> current_time_ms s' = 1700 \<and> phase s' = 0)"
  using set_mode_valid [where m = "''normal''" and wall = "17 / 10"
      and s = "\<lparr>generation_mode = ''stopped'', current_time_ms = 5, phase = 3\<rparr>"]
  by (simp add: py_int_def split: prod.splits)

text \<open>
  C2. In mode normal with phase \<open>p\<close> and clock \<open>t\<close>, one call of the data route returns
  exactly one point whose value is \<open>sin p * 50 + 60\<close> rounded to 2 decimal places, and
  afterwards the phase is \<open>p + 0.5\<close> and the clock is \<open>t + 100\<close>; nothing else changes and
  no random number is drawn. The advanced clock must be a date that \<^verbatim>\<open>datetime\<close> can
  represent.
\<close>

theorem get_data_normal:
  assumes "generation_mode s = ''normal''" and "in_datetime_range (current_time_ms s + 100)"
  shows "\<exists>tm. get_data g s =
     (Inr (JArr [JObj [(''time'', JStr tm),
                       (''value'', JNum (py_round (sin (phase s) * 50 + 60) 2))]], 200),
      g, s\<lparr>current_time_ms := current_time_ms s + 100, phase := phase s + 0.5\<rparr>)"
proof -
  have ns: "generation_mode s \<noteq> ''stopped''" using assms(1) by simp
  have "get_data g s = (fst (get_data g s), snd (get_data g s))" by simp
  then show ?thesis
    using assms(1)
    by (simp add: fst_get_data [OF ns assms(2)] fst_generate_ecg_point [OF assms(2)]
        get_data_world generate_ecg_point_world)
qed

theorem get_data_normal_witness:
  "generation_mode \<lparr>generation_mode = ''normal'', current_time_ms = 1700000000000, phase = 0\<rparr>
     = ''normal'' \<and>
   in_datetime_range (1700000000000 + 100) \<and>
   (\<exists>tm. get_data (sconst 0)
            \<lparr>generation_mode = ''normal'', current_time_ms = 1700000000000, phase = 0\<rparr> =
     (Inr (JArr [JObj [(''time'', JStr tm), (''value'', JNum 60)]], 200),
      sconst 0,
      \<lparr>generation_mode = ''normal'', current_time_ms = 1700000000100, phase = 1 / 2\<rparr>))"
  using get_data_normal [where g = "sconst 0"
      and s = "\<lparr>generation_mode = ''normal'', current_time_ms = 1700000000000, phase = 0\<rparr>"]
  by (simp add: in_datetime_range_def)

text \<open>
  C3. For every string that is not exactly one of stopped, normal, abnormal,
  \<^verbatim>\<open>set_mode\<close> answers with status 400 and an error body, prints nothing, and leaves
  the whole state (mode, clock and phase) as it was.
\<close>

theorem set_mode_invalid:
  assumes "m \<notin> {''stopped'', ''normal'', ''abnormal''}"
  shows "case set_mode wall m s of ((body, code), out, s') \<Rightarrow>
     code = 400 \<and>
     (\<exists>msg. body = JObj [(''status'', JStr ''error''), (''message'', JStr msg)]) \<and>
     out = [] \<and> s' = s"
  using assms by (auto simp: set_mode_def valid_modes_def)

theorem set_mode_invalid_witness:
  "''Normal'' \<notin> {''stopped'', ''normal'', ''abnormal''} \<and>
   (case set_mode 2 ''Normal'' \<lparr>generation_mode = ''normal'', current_time_ms = 5, phase = 3\<rparr>
    of ((body, code), out, s') \<Rightarrow>
      code = 400 \<and> s' = \<lparr>generation_mode = ''normal'', current_time_ms = 5, phase = 3\<rparr>)"
  using set_mode_invalid [where m = "''Normal''" and wall = 2
      and s = "\<lparr>generation_mode = ''normal'', current_time_ms = 5, phase = 3\<rparr>"]
  by (simp split: prod.splits)

text \<open>
  C4. In mode stopped the data route answers with the empty list and status 200: no
  point and no error.
\<close>

theorem get_data_stopped:
  assumes "generation_mode s = ''stopped''"
  shows "fst (get_data g s) = Inr (JArr [], 200)"
  using assms by (simp add: get_data_def)

theorem get_data_stopped_witness:
  "generation_mode (initial_state 1) = ''stopped'' \<and>
   fst (get_data (sconst 0) (initial_state 1)) = Inr (JArr [], 200)"
  using get_data_stopped [where s = "initial_state 1" and g = "sconst 0"]
  by (simp add: initial_state_def)

text \<open>
  C5. In mode abnormal with phase \<open>p\<close> and clock \<open>t\<close>, one call of the data route draws
  \<^verbatim>\<open>random()\<close>. When the draw is below 0.1 (the spike branch) the value is a second draw
  scaled to \<open>[130, 180]\<close>, \<open>130 + 50 * u\<close>, rounded to 2 decimal places, it lies in
  \<open>[130, 180]\<close>, and the phase stays \<open>p\<close>; otherwise the value is \<open>sin p * 40 + 65\<close>
  rounded to 2 decimal places and the phase becomes \<open>p + 0.45\<close>. In both branches the
  clock becomes \<open>t + 100\<close> and exactly one point is returned. The draws are the values of
  the random number generator, each in \<open>[0, 1)\<close>; that the first is below 0.1 with
  probability 0.10 and that the second is uniform is the generator's distribution.
\<close>

theorem get_data_abnormal:
  assumes "generation_mode s = ''abnormal''"
    and "in_datetime_range (current_time_ms s + 100)"
    and "rng_ok g"
  shows "\<exists>tm v g' s'. get_data g s =
       (Inr (JArr [JObj [(''time'', JStr tm), (''value'', JNum v)]], 200), g', s') \<and>
     generation_mode s' = ''abnormal'' \<and>
     current_time_ms s' = current_time_ms s + 100 \<and>
     (if shd g < 0.1
      then v = py_round (130 + 50 * shd (stl g)) 2 \<and> 130 \<le> v \<and> v \<le> 180 \<and>
           phase s' = phase s \<and> g' = stl (stl g)
      else v = py_round (sin (phase s) * 40 + 65) 2 \<and>
           phase s' = phase s + 0.45 \<and> g' = stl g)"
proof -
  have ns: "generation_mode s \<noteq> ''stopped''" using assms(1) by simp
  have u: "0 \<le> shd (stl g)" "shd (stl g) < 1" using assms(3) by (simp_all add: rng_ok_def)
  have "of_int 130 \<le> 130 + 50 * shd (stl g)" "130 + 50 * shd (stl g) \<le> of_int 180"
    using u by simp_all
  from py_round_2_bounds [OF this]
  have b: "130 \<le> py_round (130 + 50 * shd (stl g)) 2"
    "py_round (130 + 50 * shd (stl g)) 2 \<le> 180"
    by simp_all
  have "get_data g s = (fst (get_data g s), snd (get_data g s))" by simp
  then show ?thesis
    using assms(1) b
    by (simp add: fst_get_data [OF ns assms(2)] fst_generate_ecg_point [OF assms(2)]
        get_data_world generate_ecg_point_world)
qed

theorem get_data_abnormal_witness:
  "generation_mode \<lparr>generation_mode = ''abnormal'', current_time_ms = 1700000000000, phase = 0\<rparr>
     = ''abnormal'' \<and>
   in_datetime_range (1700000000000 + 100) \<and> rng_ok (0.05 ## sconst 0.5) \<and>
   (\<exists>tm. get_data (0.05 ## sconst 0.5)
            \<lparr>generation_mode = ''abnormal'', current_time_ms = 1700000000000, phase = 0\<rparr> =
     (Inr (JArr [JObj [(''time'', JStr tm), (''value'', JNum 155)]], 200),
      sconst 0.5,
      \<lparr>generation_mode = ''abnormal'', current_time_ms = 1700000000100, phase = 0\<rparr>))"
  using get_data_abnormal [where g = "0.05 ## sconst 0.5"
      and s = "\<lparr>generation_mode = ''abnormal'', current_time_ms = 1700000000000, phase = 0\<rparr>"]
  by (auto simp add: in_datetime_range_def rng_ok_def)

text \<open>
  C6 (amended). Each generated point advances the clock by exactly 100 ms, whatever the
  wall clock reads, and across every sequence of requests in which no restart (a valid
  \<^verbatim>\<open>set_mode\<close> to a running mode while stopped) reads a wall clock behind the simulated
  clock, the clock never decreases. A restart sets the clock to the wall clock, so the
  claim as stated (non-decreasing across every sequence) fails when the simulated clock
  has run ahead of the wall clock.
\<close>

theorem clocks_monotone:
  "(generation_mode s \<noteq> ''stopped'' \<longrightarrow>
      current_time_ms (snd (snd (get_data g s))) = current_time_ms s + 100) \<and>
   (restarts_not_behind w rs \<longrightarrow> sorted (clocks w rs))"
  by (simp add: get_data_clock clocks_sorted)

theorem clocks_monotone_witness:
  "generation_mode \<lparr>generation_mode = ''normal'', current_time_ms = 1000, phase = 0\<rparr>
     \<noteq> ''stopped'' \<and>
   current_time_ms (snd (snd (get_data (sconst 0)
      \<lparr>generation_mode = ''normal'', current_time_ms = 1000, phase = 0\<rparr>))) = 1100 \<and>
   restarts_not_behind (sconst 0, initial_state 1)
      [(1, Set_Mode ''normal''), (1.001, Data), (1.002, Data),
       (1.003, Set_Mode ''stopped''), (1.3, Set_Mode ''abnormal''), (1.301, Data)] \<and>
   clocks (sconst 0, initial_state 1)
      [(1, Set_Mode ''normal''), (1.001, Data), (1.002, Data),
       (1.003, Set_Mode ''stopped''), (1.3, Set_Mode ''abnormal''), (1.301, Data)]
     = [1000, 1000, 1100, 1200, 1200, 1300, 1400] \<and>
   sorted (clocks (sconst 0, initial_state 1)
      [(1, Set_Mode ''normal''), (1.001, Data), (1.002, Data),
       (1.003, Set_Mode ''stopped''), (1.3, Set_Mode ''abnormal''), (1.301, Data)])"
  using clocks_monotone [where g = "sconst 0" and w = "(sconst 0, initial_state 1)"
      and s = "\<lparr>generation_mode = ''normal'', current_time_ms = 1000, phase = 0\<rparr>"
      and rs = "[(1, Set_Mode ''normal''), (1.001, Data), (1.002, Data),
       (1.003, Set_Mode ''stopped''), (1.3, Set_Mode ''abnormal''), (1.301, Data)]"]
  by (simp add: initial_state_def py_int_def is_restart_def set_mode_state get_data_world
      generate_ecg_point_world valid_modes_def)

text \<open>
  The claim as stated fails: the process starts at wall clock 1.000 s, is set to normal,
  serves two points within 2 ms (clock 1200), is stopped and restarted at wall clock
  1.004 s, and the clock falls back from 1200 to 1004.
\<close>

theorem clocks_decrease_counterexample:
  "clocks (sconst 0, initial_state 1)
      [(1, Set_Mode ''normal''), (1.001, Data), (1.002, Data),
       (1.003, Set_Mode ''stopped''), (1.004, Set_Mode ''normal'')]
     = [1000, 1000, 1100, 1200, 1200, 1004] \<and>
   \<not> sorted (clocks (sconst 0, initial_state 1)
      [(1, Set_Mode ''normal''), (1.001, Data), (1.002, Data),
       (1.003, Set_Mode ''stopped''), (1.004, Set_Mode ''normal'')])"
  by (simp add: initial_state_def py_int_def set_mode_state get_data_world
      generate_ecg_point_world valid_modes_def)

text \<open>
  C7. From every starting state, \<^verbatim>\<open>set_mode("normal")\<close>, \<^verbatim>\<open>set_mode("stopped")\<close>,
  \<^verbatim>\<open>set_mode("normal")\<close> leaves mode normal, phase 0 and the clock at the wall clock of
  the third call, so the next point has the value \<open>sin 0 * 50 + 60 = 60\<close>, whatever the
  phase was before. The clock after the restart, advanced by 100 ms, must be a date that
  \<^verbatim>\<open>datetime\<close> can represent.
\<close>

theorem restart_resets:
  assumes "in_datetime_range (py_int (w3 * 1000) + 100)"
  shows "let s1 = snd (snd (set_mode w1 ''normal'' s));
             s2 = snd (snd (set_mode w2 ''stopped'' s1));
             s3 = snd (snd (set_mode w3 ''normal'' s2))
         in s3 = \<lparr>generation_mode = ''normal'', current_time_ms = py_int (w3 * 1000),
                   phase = 0\<rparr> \<and>
            (\<exists>tm. fst (get_data g s3) =
               Inr (JArr [JObj [(''time'', JStr tm), (''value'', JNum 60)]], 200))"
proof -
  define s3 where
    "s3 = \<lparr>generation_mode = ''normal'', current_time_ms = py_int (w3 * 1000), phase = 0\<rparr>"
  have r: "in_datetime_range (current_time_ms s3 + 100)" using assms by (simp add: s3_def)
  have ns: "generation_mode s3 \<noteq> ''stopped''" by (simp add: s3_def)
  have "\<exists>tm. fst (get_data g s3) =
               Inr (JArr [JObj [(''time'', JStr tm), (''value'', JNum 60)]], 200)"
    by (simp add: fst_get_data [OF ns r] fst_generate_ecg_point [OF r]) (simp add: s3_def)
  then show ?thesis
    by (simp add: set_mode_state valid_modes_def Let_def s3_def)
qed

theorem restart_resets_witness:
  "in_datetime_range (py_int (1700000000 * 1000) + 100) \<and>
   (let s1 = snd (snd (set_mode 1 ''normal''
                 \<lparr>generation_mode = ''abnormal'', current_time_ms = 77, phase = 9\<rparr>));
        s2 = snd (snd (set_mode 2 ''stopped'' s1));
        s3 = snd (snd (set_mode 1700000000 ''normal'' s2))
    in s3 = \<lparr>generation_mode = ''normal'', current_time_ms = 1700000000000, phase = 0\<rparr> \<and>
       (\<exists>tm. fst (get_data (sconst 0) s3) =
               Inr (JArr [JObj [(''time'', JStr tm), (''value'', JNum 60)]], 200)))"
  using restart_resets [where ?w3.0 = 1700000000 and ?w1.0 = 1 and ?w2.0 = 2 and g = "sconst 0"
     and s = "\<lparr>generation_mode = ''abnormal'', current_time_ms = 77, phase = 9\<rparr>"]
  by (simp add: in_datetime_range_def py_int_def Let_def set_mode_state valid_modes_def)

text \<open>
  C8. Every point the data route returns has a \<^verbatim>\<open>time\<close> field that is the ISO-8601 UTC
  string of the clock after the call, exact to the millisecond: read back, the string
  denotes \<open>1000 * timestamp_ms\<close> microseconds since the epoch. Its \<^verbatim>\<open>value\<close> field is a
  whole number of hundredths, that is, rounded to exactly 2 decimal places. (The string
  carries six fraction digits, the last three zero, and no fraction on a whole second.)
\<close>

theorem point_format:
  assumes "fst (get_data g s) = Inr (JArr ps, code)" and "p \<in> set ps"
  shows "\<exists>tm v. p = JObj [(''time'', JStr tm), (''value'', JNum v)] \<and>
           parse_isoformat tm = Some (1000 * current_time_ms (snd (snd (get_data g s)))) \<and>
           (\<exists>k::int. v = of_int k / 100)"
proof -
  from get_data_points [OF assms]
  have r: "in_datetime_range (current_time_ms s + 100)"
    and ns: "generation_mode s \<noteq> ''stopped''"
    and p: "p = projr (fst (generate_ecg_point g s))" by simp_all
  have c: "current_time_ms (snd (snd (get_data g s))) = current_time_ms s + 100"
    using ns by (simp add: get_data_clock)
  show ?thesis
    unfolding p c fst_generate_ecg_point [OF r]
    using parse_isoformat_datetime_of_ms [OF r] py_round_2_hundredths
    by simp
qed


theorem point_format_witness:
  "fst (get_data (sconst 0)
          \<lparr>generation_mode = ''normal'', current_time_ms = 1700000000000, phase = 0\<rparr>)
     = Inr (JArr [JObj [(''time'', JStr ''2023-11-14T22:13:20.100000+00:00''),
                        (''value'', JNum 60)]], 200) \<and>
   parse_isoformat ''2023-11-14T22:13:20.100000+00:00'' = Some (1000 * 1700000000100) \<and>
   (\<exists>k::int. (60::real) = of_int k / 100)"
proof -
  let ?s = "\<lparr>generation_mode = ''normal'', current_time_ms = 1700000000000, phase = 0\<rparr>"
  let ?p = "JObj [(''time'', JStr ''2023-11-14T22:13:20.100000+00:00''), (''value'', JNum 60)]"
  have r: "in_datetime_range (current_time_ms ?s + 100)" by (simp add: in_datetime_range_def)
  have ns: "generation_mode ?s \<noteq> ''stopped''" by simp
  have resp: "fst (get_data (sconst 0) ?s) = Inr (JArr [?p], 200)"
    by (simp add: fst_get_data [OF ns r] fst_generate_ecg_point [OF r] isoformat_example)
  have c: "current_time_ms (snd (snd (get_data (sconst 0) ?s))) = 1700000000100"
    by (simp add: get_data_clock)
  from point_format [OF resp, of ?p] show ?thesis
    unfolding c using resp by simp
qed

text \<open>
  C9 (amended). For every invalid mode string the \<^verbatim>\<open>set_mode\<close> route responds with
  status 400 and the body with status \<^verbatim>\<open>error\<close> and the message
  \<^verbatim>\<open>Invalid mode. Use one of: normal, abnormal, stopped\<close>: the valid modes are listed in
  the order of the list \<^verbatim>\<open>valid_modes\<close>, not in the order stopped, normal, abnormal.
\<close>

theorem set_mode_invalid_message:
  assumes "m \<notin> {''stopped'', ''normal'', ''abnormal''}"
  shows "fst (set_mode wall m s) =
     (JObj [(''status'', JStr ''error''),
            (''message'', JStr ''Invalid mode. Use one of: normal, abnormal, stopped'')], 400)"
  using assms by (simp add: set_mode_def valid_modes_def)

theorem set_mode_invalid_message_witness:
  "''stop'' \<notin> {''stopped'', ''normal'', ''abnormal''} \<and>
   fst (set_mode 0 ''stop'' (initial_state 0)) =
     (JObj [(''status'', JStr ''error''),
            (''message'', JStr ''Invalid mode. Use one of: normal, abnormal, stopped'')], 400)"
  using set_mode_invalid_message [where m = "''stop''" and wall = 0 and s = "initial_state 0"]
  by simp

text \<open>The body of the claim as stated is not the response to the invalid mode \<^verbatim>\<open>stop\<close>.\<close>

theorem set_mode_invalid_message_counterexample:
  "fst (set_mode 0 ''stop'' (initial_state 0)) \<noteq>
     (JObj [(''status'', JStr ''error''),
            (''message'', JStr ''Invalid mode. Use one of: stopped, normal, abnormal'')], 400)"
  by (simp add: set_mode_def valid_modes_def)

text \<open>
  C10. While the mode is stopped, the data route returns the empty list and leaves the
  random number generator and the whole state unchanged: it returns before the generator
  is called. The generator itself, called in mode stopped, would advance the clock by
  100 ms and return a point with value 0.
\<close>

theorem get_data_stopped_frame:
  assumes "generation_mode s = ''stopped''"
  shows "get_data g s = (Inr (JArr [], 200), g, s) \<and>
     snd (generate_ecg_point g s) = (g, s\<lparr>current_time_ms := current_time_ms s + 100\<rparr>) \<and>
     (in_datetime_range (current_time_ms s + 100) \<longrightarrow>
        (\<exists>tm. fst (generate_ecg_point g s) =
           Inr (JObj [(''time'', JStr tm), (''value'', JNum 0)])))"
  using assms
  by (auto simp: get_data_def generate_ecg_point_world fst_generate_ecg_point)

theorem get_data_stopped_frame_witness:
  "generation_mode (initial_state 1) = ''stopped'' \<and>
   get_data (sconst 0) (initial_state 1) = (Inr (JArr [], 200), sconst 0, initial_state 1) \<and>
   snd (generate_ecg_point (sconst 0) (initial_state 1)) =
     (sconst 0, \<lparr>generation_mode = ''stopped'', current_time_ms = 1100, phase = 0\<rparr>) \<and>
   in_datetime_range 1100 \<and>
   (\<exists>tm. fst (generate_ecg_point (sconst 0) (initial_state 1)) =
      Inr (JObj [(''time'', JStr tm), (''value'', JNum 0)]))"
  using get_data_stopped_frame [where s = "initial_state 1" and g = "sconst 0"]
  by (simp add: initial_state_def py_int_def in_datetime_range_def)

end
